theory Spec2Isabelle
  imports Main
begin

section \<open>JavaScript values used by the two components\<close>

text \<open>
  The state cells \<open>frameIndex\<close> and \<open>setIndex\<close> are JavaScript numbers. They start at
  \<open>0\<close> and the code only applies \<open>+ 1\<close>, \<open>% length\<close> and \<open>>= length\<close> to them, so
  the only values that arise are natural numbers and \<open>NaN\<close> (the remainder by a zero
  length). An array length is always a natural number.
\<close>

datatype jsnum = Num nat | NaN

fun js_succ :: "jsnum \<Rightarrow> jsnum" where
  "js_succ (Num n) = Num (n + 1)"
| "js_succ NaN = NaN"

fun js_rem :: "jsnum \<Rightarrow> nat \<Rightarrow> jsnum" where
  "js_rem (Num n) len = (if len = 0 then NaN else Num (n mod len))"
| "js_rem NaN len = NaN"

fun js_ge :: "jsnum \<Rightarrow> nat \<Rightarrow> bool" where
  "js_ge (Num n) len = (len \<le> n)"
| "js_ge NaN len = False"

text \<open>
  \<open>xs[i]\<close> on an array: \<open>undefined\<close> (here \<open>None\<close>) when \<open>i\<close> is out of range or
  \<open>NaN\<close>; it never throws. Reading a property of \<open>undefined\<close> itself throws a
  \<open>TypeError\<close>.
\<close>

fun js_index :: "'a list \<Rightarrow> jsnum \<Rightarrow> 'a option" where
  "js_index xs (Num i) = (if i < length xs then Some (xs ! i) else None)"
| "js_index xs NaN = None"

datatype error = TypeError

section \<open>The host's interval timers\<close>

text \<open>
  \<open>setInterval\<close> registers a callback under a fresh id and \<open>clearInterval\<close> removes
  it; the host only ever invokes callbacks that are still registered. A callback is
  represented by what its closure captured.
\<close>

record 'c timers =
  live :: "(nat \<times> 'c) list"
  nextId :: nat

definition noTimers :: "'c timers" where
  "noTimers = \<lparr>live = [], nextId = 0\<rparr>"

definition setInterval :: "'c \<Rightarrow> 'c timers \<Rightarrow> nat \<times> 'c timers" where
  "setInterval cb h = (nextId h, \<lparr>live = live h @ [(nextId h, cb)], nextId = nextId h + 1\<rparr>)"

definition clearInterval :: "nat \<Rightarrow> 'c timers \<Rightarrow> 'c timers" where
  "clearInterval i h = h\<lparr>live := filter (\<lambda>e. fst e \<noteq> i) (live h)\<rparr>"

section \<open>AsciiBackground: cycling through frame sets\<close>

text \<open>
  The props \<open>frameSets\<close> and \<open>frameRate\<close> are fixed while an instance is mounted.
  Time is counted in timer firings: \<open>frameRate\<close> only sets their spacing. The updater
  passed to \<open>setFrameIndex\<close> runs once per firing, and the re-render that a firing
  causes, with its effects, is complete before the next firing.

  One mounted instance: the two \<open>useState\<close> cells, the value of
  \<open>currentFrameSet.length\<close> in the dependency array of the last effect run (the other
  two dependencies, \<open>frameRate\<close> and \<open>frameSets.length\<close>, are props and stay fixed), the
  interval id held by the effect's cleanup, and the host's timers. The interval callback
  closes over the \<open>currentFrameSet\<close> of the render whose effect registered it.
\<close>

record ascii_background =
  frameIndex :: jsnum
  setIndex :: jsnum
  effectDeps :: nat
  cleanup :: "nat option"
  host :: "string list timers"

definition initial :: ascii_background where
  "initial = \<lparr>frameIndex = Num 0, setIndex = Num 0, effectDeps = 0, cleanup = None,
     host = noTimers\<rparr>"

text \<open>
  The render body: \<open>currentFrameSet = frameSets[setIndex]\<close> and
  \<open>currentFrame = currentFrameSet[frameIndex]\<close>. The second read throws when the first
  gave \<open>undefined\<close>. The result is the frame set and the displayed frame.
\<close>

definition render :: "string list list \<Rightarrow> ascii_background \<Rightarrow> error + (string list \<times> string option)" where
  "render frameSets st =
     (case js_index frameSets (setIndex st) of
        None \<Rightarrow> Inl TypeError
      | Some currentFrameSet \<Rightarrow> Inr (currentFrameSet, js_index currentFrameSet (frameIndex st)))"

text \<open>
  The interval callback: \<open>setFrameIndex\<close> with an updater that also calls
  \<open>setSetIndex\<close>; both updates land in the same render.
\<close>

definition onInterval :: "string list list \<Rightarrow> string list \<Rightarrow> ascii_background \<Rightarrow> ascii_background" where
  "onInterval frameSets currentFrameSet st =
     (let nextFrame = js_succ (frameIndex st) in
      if js_ge nextFrame (length currentFrameSet)
      then st\<lparr>setIndex := js_rem (js_succ (setIndex st)) (length frameSets), frameIndex := Num 0\<rparr>
      else st\<lparr>frameIndex := nextFrame\<rparr>)"

definition runEffect :: "string list \<Rightarrow> ascii_background \<Rightarrow> ascii_background" where
  "runEffect currentFrameSet st =
     (case setInterval currentFrameSet (host st) of
        (interval, h) \<Rightarrow>
          st\<lparr>host := h, cleanup := Some interval, effectDeps := length currentFrameSet\<rparr>)"

definition runCleanup :: "ascii_background \<Rightarrow> ascii_background" where
  "runCleanup st =
     (case cleanup st of
        None \<Rightarrow> st
      | Some interval \<Rightarrow> st\<lparr>host := clearInterval interval (host st), cleanup := None\<rparr>)"

text \<open>
  Mounting renders once and runs the effect. A re-render after a state update runs the
  cleanup and the effect again only when \<open>currentFrameSet.length\<close> differs from its
  value at the last effect run.
\<close>

definition mount :: "string list list \<Rightarrow> error + ascii_background" where
  "mount frameSets =
     (case render frameSets initial of
        Inl e \<Rightarrow> Inl e
      | Inr (currentFrameSet, _) \<Rightarrow> Inr (runEffect currentFrameSet initial))"

definition rerender :: "string list list \<Rightarrow> ascii_background \<Rightarrow> error + ascii_background" where
  "rerender frameSets st =
     (case render frameSets st of
        Inl e \<Rightarrow> Inl e
      | Inr (currentFrameSet, _) \<Rightarrow>
          Inr (if effectDeps st = length currentFrameSet then st
               else runEffect currentFrameSet (runCleanup st)))"

definition unmount :: "ascii_background \<Rightarrow> ascii_background" where
  "unmount st = runCleanup st"

text \<open>
  The host firing interval \<open>i\<close>: nothing happens unless \<open>i\<close> is still registered. A tick
  is one period of the host's timers: every interval registered at its start fires.
\<close>

definition fire :: "string list list \<Rightarrow> nat \<Rightarrow> ascii_background \<Rightarrow> error + ascii_background" where
  "fire frameSets i st =
     (case map_of (live (host st)) i of
        None \<Rightarrow> Inr st
      | Some currentFrameSet \<Rightarrow> rerender frameSets (onInterval frameSets currentFrameSet st))"

fun fires :: "string list list \<Rightarrow> nat list \<Rightarrow> ascii_background \<Rightarrow> error + ascii_background" where
  "fires frameSets [] st = Inr st"
| "fires frameSets (i # is) st =
     (case fire frameSets i st of Inl e \<Rightarrow> Inl e | Inr st' \<Rightarrow> fires frameSets is st')"

definition tick :: "string list list \<Rightarrow> ascii_background \<Rightarrow> error + ascii_background" where
  "tick frameSets st = fires frameSets (map fst (live (host st))) st"

fun ticks :: "string list list \<Rightarrow> nat \<Rightarrow> ascii_background \<Rightarrow> error + ascii_background" where
  "ticks frameSets 0 st = Inr st"
| "ticks frameSets (Suc n) st =
     (case tick frameSets st of Inl e \<Rightarrow> Inl e | Inr st' \<Rightarrow> ticks frameSets n st')"

definition run :: "string list list \<Rightarrow> nat \<Rightarrow> error + ascii_background" where
  "run frameSets n = (case mount frameSets of Inl e \<Rightarrow> Inl e | Inr st \<Rightarrow> ticks frameSets n st)"

definition displayed :: "string list list \<Rightarrow> ascii_background \<Rightarrow> string option" where
  "displayed frameSets st = (case render frameSets st of Inl e \<Rightarrow> None | Inr (_, currentFrame) \<Rightarrow> currentFrame)"

text \<open>
  The position of a running instance: indices \<open>s\<close> and \<open>f\<close>, with \<open>s\<close> a valid set
  index, exactly one registered interval, which is the one the cleanup holds, and whose
  captured frame set is as long as the active one (the closure may be stale, but only
  its length is read).
\<close>

definition at :: "string list list \<Rightarrow> ascii_background \<Rightarrow> nat \<Rightarrow> nat \<Rightarrow> bool" where
  "at frameSets st s f =
     (setIndex st = Num s \<and> frameIndex st = Num f \<and> s < length frameSets \<and>
      effectDeps st = length (frameSets ! s) \<and>
      (case live (host st) of
         [] \<Rightarrow> False
       | (i, currentFrameSet) # rest \<Rightarrow>
           rest = [] \<and> cleanup st = Some i \<and>
           length currentFrameSet = length (frameSets ! s)))"

definition inBounds :: "string list list \<Rightarrow> ascii_background \<Rightarrow> bool" where
  "inBounds frameSets st =
     (case (setIndex st, frameIndex st) of
        (Num s, Num f) \<Rightarrow> s < length frameSets \<and> f < length (frameSets ! s)
      | _ \<Rightarrow> False)"

section \<open>ScrollingAscii: one frame list and a scrolling layer\<close>

datatype direction = Left | Right

fun directionText :: "direction \<Rightarrow> string" where
  "directionText Left = ''left''"
| "directionText Right = ''right''"

text \<open>
  The props, an absent optional prop being \<open>None\<close>. Numbers are natural numbers here.
\<close>

record scrolling_ascii_props =
  frames :: "string list"
  frameRate :: "nat option"
  scrollDuration :: "nat option"
  color :: "string option"
  fontSize :: "nat option"
  direction :: "direction option"

definition frameRateOf :: "scrolling_ascii_props \<Rightarrow> nat" where
  "frameRateOf p = (case frameRate p of None \<Rightarrow> 150 | Some r \<Rightarrow> r)"

definition scrollDurationOf :: "scrolling_ascii_props \<Rightarrow> nat" where
  "scrollDurationOf p = (case scrollDuration p of None \<Rightarrow> 20 | Some d \<Rightarrow> d)"

definition directionOf :: "scrolling_ascii_props \<Rightarrow> direction" where
  "directionOf p = (case direction p of None \<Rightarrow> Right | Some d \<Rightarrow> d)"

definition digitChar :: "nat \<Rightarrow> char" where
  "digitChar n = ''0123456789'' ! n"

fun showNat :: "nat \<Rightarrow> string" where
  "showNat n = (if n < 10 then [digitChar n] else showNat (n div 10) @ [digitChar (n mod 10)])"

text \<open>
  The \<open>animation\<close> shorthand of \<open>scrollStyle\<close>, and the keyframes name it refers to (its
  first word).
\<close>

definition scrollStyleAnimation :: "scrolling_ascii_props \<Rightarrow> string" where
  "scrollStyleAnimation p =
     ''scroll-'' @ directionText (directionOf p) @ '' '' @ showNat (scrollDurationOf p) @
     ''s linear infinite''"

definition animationName :: "string \<Rightarrow> string" where
  "animationName a = takeWhile (\<lambda>c. c \<noteq> CHR '' '') a"

text \<open>
  The page: the elements under \<open>document.head\<close> and the other elements of the
  document. \<open>getElementById\<close> searches all of them and gives the first match, or
  \<open>null\<close> (here \<open>None\<close>). The text of the injected style sheet is kept as the list of
  the \<open>@keyframes\<close> rules it declares.
\<close>

record keyframes =
  kfName :: string
  kfFrom :: string
  kfTo :: string

record element =
  tag :: string
  elemId :: string
  textContent :: "keyframes list"

record document =
  head :: "element list"
  body :: "element list"

definition styleId :: string where
  "styleId = ''ascii-scroll-keyframes''"

definition getElementById :: "string \<Rightarrow> document \<Rightarrow> element option" where
  "getElementById i doc = find (\<lambda>e. elemId e = i) (head doc @ body doc)"

definition styleSheet :: element where
  "styleSheet = \<lparr>tag = ''style'', elemId = styleId, textContent =
     [\<lparr>kfName = ''scroll-right'', kfFrom = ''translateX(-100%)'', kfTo = ''translateX(100vw)''\<rparr>,
      \<lparr>kfName = ''scroll-left'', kfFrom = ''translateX(100vw)'', kfTo = ''translateX(-100%)''\<rparr>]\<rparr>"

text \<open>The second effect of ScrollingAscii: inject the keyframes if not already present.\<close>

definition injectKeyframes :: "document \<Rightarrow> document" where
  "injectKeyframes doc =
     (if getElementById styleId doc = None then doc\<lparr>head := head doc @ [styleSheet]\<rparr> else doc)"

text \<open>
  One mounted instance. Its interval callback closes over \<open>frames\<close>; the dependencies
  \<open>frameRate\<close> and \<open>frames.length\<close> of the interval effect are props, so the effect runs
  once.
\<close>

record scrolling_ascii =
  sa_frameIndex :: jsnum
  sa_cleanup :: "nat option"
  sa_host :: "string list timers"

record scrolling_view =
  animation :: string
  preText :: "string option"

definition sa_render :: "scrolling_ascii_props \<Rightarrow> scrolling_ascii \<Rightarrow> scrolling_view" where
  "sa_render p st =
     \<lparr>animation = scrollStyleAnimation p, preText = js_index (frames p) (sa_frameIndex st)\<rparr>"

definition sa_onInterval :: "string list \<Rightarrow> scrolling_ascii \<Rightarrow> scrolling_ascii" where
  "sa_onInterval fr st = st\<lparr>sa_frameIndex := js_rem (js_succ (sa_frameIndex st)) (length fr)\<rparr>"

definition sa_mount :: "scrolling_ascii_props \<Rightarrow> document \<Rightarrow> scrolling_ascii \<times> document" where
  "sa_mount p doc =
     (case setInterval (frames p) noTimers of
        (interval, h) \<Rightarrow>
          (\<lparr>sa_frameIndex = Num 0, sa_cleanup = Some interval, sa_host = h\<rparr>,
           injectKeyframes doc))"

definition sa_unmount :: "scrolling_ascii \<Rightarrow> scrolling_ascii" where
  "sa_unmount st =
     (case sa_cleanup st of
        None \<Rightarrow> st
      | Some interval \<Rightarrow> st\<lparr>sa_host := clearInterval interval (sa_host st), sa_cleanup := None\<rparr>)"

definition sa_fire :: "nat \<Rightarrow> scrolling_ascii \<Rightarrow> scrolling_ascii" where
  "sa_fire i st =
     (case map_of (live (sa_host st)) i of
        None \<Rightarrow> st
      | Some fr \<Rightarrow> sa_onInterval fr st)"

definition sa_tick :: "scrolling_ascii \<Rightarrow> scrolling_ascii" where
  "sa_tick st = fold sa_fire (map fst (live (sa_host st))) st"

fun sa_ticks :: "nat \<Rightarrow> scrolling_ascii \<Rightarrow> scrolling_ascii" where
  "sa_ticks 0 st = st"
| "sa_ticks (Suc n) st = sa_ticks n (sa_tick st)"

definition sa_run :: "scrolling_ascii_props \<Rightarrow> document \<Rightarrow> nat \<Rightarrow> scrolling_ascii" where
  "sa_run p doc n = sa_ticks n (fst (sa_mount p doc))"

text \<open>Mounting several instances on one page, in the order given.\<close>

definition mountAll :: "scrolling_ascii_props list \<Rightarrow> document \<Rightarrow> document" where
  "mountAll ps doc = fold (\<lambda>p d. snd (sa_mount p d)) ps doc"

definition registered :: "document \<Rightarrow> nat" where
  "registered doc = length (filter (\<lambda>e. elemId e = styleId) (head doc @ body doc))"

section \<open>Sample inputs\<close>

text \<open>
  The frame sets and the props of the spec's two scenarios, props with an empty
  \<open>frames\<close> list, and a page without elements.
\<close>

abbreviation twoSets :: "string list list" where
  "twoSets \<equiv> [[''A'', ''B''], [''C'', ''D'', ''E'']]"

abbreviation xyProps :: scrolling_ascii_props where
  "xyProps \<equiv> \<lparr>frames = [''X'', ''Y''], frameRate = Some 150, scrollDuration = Some 20,
     color = None, fontSize = None, direction = Some Right\<rparr>"

abbreviation noFrames :: scrolling_ascii_props where
  "noFrames \<equiv> \<lparr>frames = [], frameRate = None, scrollDuration = None, color = None,
     fontSize = None, direction = Some Left\<rparr>"

abbreviation emptyPage :: document where
  "emptyPage \<equiv> \<lparr>head = [], body = []\<rparr>"

section \<open>AsciiBackground: the position of a running instance\<close>

lemma at_live:
  "at fs st s f \<Longrightarrow>
   \<exists>i c. live (host st) = [(i, c)] \<and> cleanup st = Some i \<and> length c = length (fs ! s)"
  by (auto simp: at_def split: list.splits)

lemma mount_at: "fs \<noteq> [] \<Longrightarrow> \<exists>st. mount fs = Inr st \<and> at fs st 0 0"
  by (cases fs)
    (auto simp: mount_def render_def initial_def runEffect_def setInterval_def noTimers_def at_def)

text \<open>With no frame set at all the first render throws, so nothing is mounted.\<close>

lemma mount_empty: "mount [] = Inl TypeError"
  by (simp add: mount_def render_def initial_def)

text \<open>
  One tick from a position: the frame index moves on inside the set, or wraps together
  with the move to the next set; the effect is run again exactly when the length of the
  active set changed, so the running callback always reads the right length.
\<close>

lemma tick_at:
  assumes "at fs st s f"
  shows "\<exists>st'. tick fs st = Inr st' \<and>
     (if length (fs ! s) \<le> f + 1 then at fs st' ((s + 1) mod length fs) 0
      else at fs st' s (f + 1))"
proof -
  from at_live[OF assms] obtain i c where
    l: "live (host st) = [(i, c)]" and cl: "cleanup st = Some i"
    and len: "length c = length (fs ! s)"
    by blast
  from assms have si: "setIndex st = Num s" and fi: "frameIndex st = Num f"
    and s: "s < length fs" and d: "effectDeps st = length (fs ! s)"
    by (auto simp: at_def)
  show ?thesis
    using l cl len si fi s d
    by (auto simp: tick_def fire_def onInterval_def rerender_def render_def Let_def at_def
        runEffect_def runCleanup_def setInterval_def clearInterval_def)
qed

lemma ticks_add:
  "ticks fs (a + b) st = (case ticks fs a st of Inl e \<Rightarrow> Inl e | Inr st' \<Rightarrow> ticks fs b st')"
  by (induction a arbitrary: st) (auto split: sum.splits)

lemma ticks_at:
  "at fs st s f \<Longrightarrow> \<exists>st' s' f'. ticks fs n st = Inr st' \<and> at fs st' s' f'"
proof (induction n arbitrary: st s f)
  case 0
  then show ?case by auto
next
  case (Suc n)
  from tick_at[OF Suc.prems] obtain st1 s1 f1 where "tick fs st = Inr st1" "at fs st1 s1 f1"
    by (auto split: if_splits)
  with Suc.IH[of st1 s1 f1] show ?case by auto
qed

lemma run_total:
  assumes "fs \<noteq> []"
  shows "\<exists>st s f. run fs n = Inr st \<and> at fs st s f"
proof -
  from mount_at[OF assms] obtain st0 where m: "mount fs = Inr st0" and a: "at fs st0 0 0"
    by blast
  from ticks_at[OF a, of n] m show ?thesis by (auto simp: run_def)
qed

lemma run_at:
  assumes "run fs n = Inr st"
  shows "\<exists>s f. at fs st s f"
proof -
  have "fs \<noteq> []" using assms by (auto simp: run_def mount_empty)
  from run_total[OF this, of n] assms show ?thesis by auto
qed

lemma run_Suc:
  "run fs (Suc n) = (case run fs n of Inl e \<Rightarrow> Inl e | Inr st \<Rightarrow> tick fs st)"
proof -
  have "ticks fs (n + 1) st = (case ticks fs n st of Inl e \<Rightarrow> Inl e | Inr st' \<Rightarrow> tick fs st')"
    for st
    unfolding ticks_add by (auto split: sum.splits)
  then show ?thesis by (auto simp: run_def split: sum.splits)
qed

section \<open>AsciiBackground: the tick\<close>

text \<open>
  Claim C1. For non-empty \<open>frameSets\<close>, the instance is running after any number \<open>n\<close> of
  ticks, at natural-number indices \<open>s\<close> (a valid set index) and \<open>f\<close>, and the next tick
  succeeds and increments the frame index: when \<open>f + 1\<close> reaches or exceeds the length
  of the active set \<open>frameSets ! s\<close>, the frame index becomes \<open>0\<close> and the set index
  \<open>(s + 1) mod length frameSets\<close>; otherwise the frame index becomes \<open>f + 1\<close> and the
  set index stays \<open>s\<close>, so the set index changes in no other transition. This needs no
  assumption on the sets themselves.
\<close>

theorem tick_transition:
  assumes "frameSets \<noteq> []"
  shows "\<exists>st s f st'. run frameSets n = Inr st \<and>
     setIndex st = Num s \<and> frameIndex st = Num f \<and> s < length frameSets \<and>
     tick frameSets st = Inr st' \<and> run frameSets (Suc n) = Inr st' \<and>
     (if length (frameSets ! s) \<le> f + 1
      then frameIndex st' = Num 0 \<and> setIndex st' = Num ((s + 1) mod length frameSets)
      else frameIndex st' = Num (f + 1) \<and> setIndex st' = Num s)"
proof -
  from run_total[OF assms, of n] obtain st s f where r: "run frameSets n = Inr st"
    and a: "at frameSets st s f"
    by blast
  from tick_at[OF a] obtain st' where t: "tick frameSets st = Inr st'"
    and n: "if length (frameSets ! s) \<le> f + 1
       then at frameSets st' ((s + 1) mod length frameSets) 0
       else at frameSets st' s (f + 1)"
    by blast
  from a have i: "setIndex st = Num s" "frameIndex st = Num f" "s < length frameSets"
    by (auto simp: at_def)
  have "run frameSets (Suc n) = Inr st'"
    using r t by (simp add: run_Suc)
  with r t n i show ?thesis
    by (cases "length (frameSets ! s) \<le> f + 1") (auto simp: at_def)
qed

theorem tick_transition_witness:
  "\<exists>st'. run twoSets (Suc 1) = Inr st' \<and>
     frameIndex st' = Num 0 \<and> setIndex st' = Num 1"
proof -
  have h: "twoSets \<noteq> []" by simp
  from tick_transition[OF h, of 1] obtain st s f st' where
    r: "run twoSets 1 = Inr st" and i: "setIndex st = Num s" "frameIndex st = Num f"
    and r2: "run twoSets (Suc 1) = Inr st'"
    and c: "if length (twoSets ! s) \<le> f + 1
       then frameIndex st' = Num 0 \<and> setIndex st' = Num ((s + 1) mod length twoSets)
       else frameIndex st' = Num (f + 1) \<and> setIndex st' = Num s"
    by blast
  have e: "run twoSets 1 = Inr \<lparr>frameIndex = Num 1, setIndex = Num 0, effectDeps = 2,
      cleanup = Some 0, host = \<lparr>live = [(0, [''A'', ''B''])], nextId = 1\<rparr>\<rparr>"
    by (simp add: run_def mount_def render_def initial_def runEffect_def setInterval_def
        noTimers_def tick_def fire_def onInterval_def rerender_def runCleanup_def
        clearInterval_def)
  from r e i have "s = 0" "f = 1" by auto
  with c have "frameIndex st' = Num 0 \<and> setIndex st' = Num 1" by simp
  with r2 show ?thesis by blast
qed

section \<open>AsciiBackground: bounds, the full cycle and two scenarios\<close>

lemma at_inBounds: "at fs st s f \<Longrightarrow> f < length (fs ! s) \<Longrightarrow> inBounds fs st"
  by (simp add: at_def inBounds_def)

lemma tick_inBounds:
  assumes a: "at fs st s f" and ne: "\<forall>x \<in> set fs. x \<noteq> []"
  shows "\<exists>st'. tick fs st = Inr st' \<and> inBounds fs st'"
proof -
  from a have s: "s < length fs" by (simp add: at_def)
  from tick_at[OF a] obtain st' where t: "tick fs st = Inr st'"
    and n: "if length (fs ! s) \<le> f + 1 then at fs st' ((s + 1) mod length fs) 0
      else at fs st' s (f + 1)"
    by blast
  show ?thesis
  proof (cases "length (fs ! s) \<le> f + 1")
    case True
    with n have a': "at fs st' ((s + 1) mod length fs) 0" by simp
    from s have "0 < length fs" by auto
    then have "(s + 1) mod length fs < length fs" by (rule mod_less_divisor)
    then have "fs ! ((s + 1) mod length fs) \<in> set fs" by simp
    with ne have "0 < length (fs ! ((s + 1) mod length fs))" by auto
    from at_inBounds[OF a' this] t show ?thesis by blast
  next
    case False
    with n have a': "at fs st' s (f + 1)" by simp
    from False have "f + 1 < length (fs ! s)" by simp
    from at_inBounds[OF a' this] t show ?thesis by blast
  qed
qed

text \<open>
  Claim C5. For non-empty \<open>frameSets\<close> whose sets are all non-empty, mounting gives the
  state with both indices \<open>0\<close>, which is in bounds (\<open>setIndex\<close> below the number of
  sets and \<open>frameIndex\<close> below the length of the active set); after any number \<open>n\<close> of
  ticks the state is in bounds, and the next tick, which updates both indices in one
  step, succeeds and gives a state in bounds again.
\<close>

theorem indices_in_bounds:
  assumes "frameSets \<noteq> []" and "\<forall>s \<in> set frameSets. s \<noteq> []"
  shows "(\<exists>st0. mount frameSets = Inr st0 \<and> setIndex st0 = Num 0 \<and> frameIndex st0 = Num 0 \<and>
            inBounds frameSets st0) \<and>
         (\<exists>st st'. run frameSets n = Inr st \<and> inBounds frameSets st \<and>
            tick frameSets st = Inr st' \<and> run frameSets (Suc n) = Inr st' \<and>
            inBounds frameSets st')"
proof
  from mount_at[OF assms(1)] obtain st0 where m: "mount frameSets = Inr st0"
    and a: "at frameSets st0 0 0" by blast
  have "frameSets ! 0 \<in> set frameSets" using assms(1) by simp
  with assms(2) have "0 < length (frameSets ! 0)" by auto
  from at_inBounds[OF a this] m a
  show "\<exists>st0. mount frameSets = Inr st0 \<and> setIndex st0 = Num 0 \<and> frameIndex st0 = Num 0 \<and>
            inBounds frameSets st0"
    by (auto simp: at_def)
next
  have reach: "\<exists>st. run frameSets k = Inr st \<and> inBounds frameSets st" for k
  proof (cases k)
    case 0
    from mount_at[OF assms(1)] obtain st0 where m: "mount frameSets = Inr st0"
      and a: "at frameSets st0 0 0" by blast
    have "frameSets ! 0 \<in> set frameSets" using assms(1) by simp
    with assms(2) have "0 < length (frameSets ! 0)" by auto
    from at_inBounds[OF a this] m 0 show ?thesis by (simp add: run_def)
  next
    case (Suc j)
    from run_total[OF assms(1), of j] obtain st s f where r: "run frameSets j = Inr st"
      and a: "at frameSets st s f" by blast
    from tick_inBounds[OF a assms(2)] r Suc show ?thesis by (simp add: run_Suc)
  qed
  from reach[of n] obtain st where r: "run frameSets n = Inr st" and b: "inBounds frameSets st"
    by blast
  from reach[of "Suc n"] obtain st' where r': "run frameSets (Suc n) = Inr st'"
    and b': "inBounds frameSets st'" by blast
  from r r' have "tick frameSets st = Inr st'" by (simp add: run_Suc)
  with r b r' b'
  show "\<exists>st st'. run frameSets n = Inr st \<and> inBounds frameSets st \<and>
            tick frameSets st = Inr st' \<and> run frameSets (Suc n) = Inr st' \<and>
            inBounds frameSets st'"
    by blast
qed


theorem indices_in_bounds_witness:
  "(\<exists>st0. mount twoSets = Inr st0 \<and>
      setIndex st0 = Num 0 \<and> frameIndex st0 = Num 0 \<and>
      inBounds twoSets st0) \<and>
   (\<exists>st st'. run twoSets 1 = Inr st \<and>
      inBounds twoSets st \<and>
      tick twoSets st = Inr st' \<and>
      run twoSets (Suc 1) = Inr st' \<and>
      inBounds twoSets st')"
proof -
  have h1: "twoSets \<noteq> []" by simp
  have h2: "\<forall>s \<in> set twoSets. s \<noteq> []" by simp
  from indices_in_bounds[OF h1 h2, of 1] show ?thesis .
qed

lemma ticks_frames:
  "at fs st s f \<Longrightarrow> f + k < length (fs ! s) \<Longrightarrow>
   \<exists>st'. ticks fs k st = Inr st' \<and> at fs st' s (f + k)"
proof (induction k arbitrary: st f)
  case 0
  then show ?case by simp
next
  case (Suc k)
  from Suc.prems(2) have lt: "\<not> length (fs ! s) \<le> f + 1" by simp
  from tick_at[OF Suc.prems(1)] lt obtain st1 where t: "tick fs st = Inr st1"
    and a1: "at fs st1 s (f + 1)" by auto
  from Suc.prems(2) have "(f + 1) + k < length (fs ! s)" by simp
  from Suc.IH[OF a1 this] t show ?case by simp
qed

lemma ticks_set:
  assumes a: "at fs st s 0" and ne: "fs ! s \<noteq> []"
  shows "\<exists>st'. ticks fs (length (fs ! s)) st = Inr st' \<and> at fs st' ((s + 1) mod length fs) 0"
proof -
  from ne obtain m where m: "length (fs ! s) = m + 1"
    by (cases "fs ! s") auto
  then have "0 + m < length (fs ! s)" by simp
  from ticks_frames[OF a this] obtain st1 where t1: "ticks fs m st = Inr st1"
    and a1: "at fs st1 s m" by auto
  from tick_at[OF a1] m obtain st2 where t2: "tick fs st1 = Inr st2"
    and a2: "at fs st2 ((s + 1) mod length fs) 0" by auto
  have "ticks fs (m + 1) st = Inr st2"
    unfolding ticks_add using t1 t2 by simp
  with a2 m show ?thesis by simp
qed

lemma ticks_sets:
  assumes ne: "\<forall>x \<in> set fs. x \<noteq> []"
  shows "at fs st s 0 \<Longrightarrow> s + k \<le> length fs \<Longrightarrow>
    \<exists>st'. ticks fs (sum_list (map length (take k (drop s fs)))) st = Inr st' \<and>
      at fs st' ((s + k) mod length fs) 0"
proof (induction k)
  case 0
  from 0(1) have "s < length fs" by (simp add: at_def)
  with 0 show ?case by simp
next
  case (Suc k)
  from Suc.prems(2) have lt: "s + k < length fs" by simp
  with Suc.IH[OF Suc.prems(1)] obtain st1 where
    t1: "ticks fs (sum_list (map length (take k (drop s fs)))) st = Inr st1"
    and a1: "at fs st1 (s + k) 0" by auto
  from lt have "fs ! (s + k) \<in> set fs" by simp
  with ne have "fs ! (s + k) \<noteq> []" by blast
  from ticks_set[OF a1 this] obtain st2 where
    t2: "ticks fs (length (fs ! (s + k))) st1 = Inr st2"
    and a2: "at fs st2 ((s + k + 1) mod length fs) 0" by blast
  from lt have "k < length (drop s fs)" by simp
  then have "take (Suc k) (drop s fs) = take k (drop s fs) @ [drop s fs ! k]"
    by (rule take_Suc_conv_app_nth)
  moreover from lt have "drop s fs ! k = fs ! (s + k)" by simp
  ultimately have "sum_list (map length (take (Suc k) (drop s fs))) =
      sum_list (map length (take k (drop s fs))) + length (fs ! (s + k))"
    by simp
  then have "ticks fs (sum_list (map length (take (Suc k) (drop s fs)))) st = Inr st2"
    using t1 t2 by (simp add: ticks_add)
  with a2 show ?case by simp
qed

lemma decompose:
  "k < sum_list (map length fs) \<Longrightarrow>
   \<exists>s f. s < length fs \<and> f < length (fs ! s) \<and> k = sum_list (map length (take s fs)) + f"
proof (induction fs arbitrary: k)
  case Nil
  then show ?case by simp
next
  case (Cons x xs)
  show ?case
  proof (cases "k < length x")
    case True
    then have "0 < length (x # xs) \<and> k < length ((x # xs) ! 0) \<and>
        k = sum_list (map length (take 0 (x # xs))) + k" by simp
    then show ?thesis by blast
  next
    case False
    with Cons.prems have "k - length x < sum_list (map length xs)" by simp
    from Cons.IH[OF this] obtain s f where s: "s < length xs" and f: "f < length (xs ! s)"
      and k: "k - length x = sum_list (map length (take s xs)) + f" by blast
    from s f k False have "Suc s < length (x # xs) \<and> f < length ((x # xs) ! Suc s) \<and>
        k = sum_list (map length (take (Suc s) (x # xs))) + f" by simp
    then show ?thesis by blast
  qed
qed

lemma ticks_position:
  assumes ne: "\<forall>x \<in> set fs. x \<noteq> []" and a: "at fs st0 0 0"
    and s: "s < length fs" and f: "f < length (fs ! s)"
  shows "\<exists>st. ticks fs (sum_list (map length (take s fs)) + f) st0 = Inr st \<and> at fs st s f"
proof -
  from s have "0 + s \<le> length fs" by simp
  from ticks_sets[OF ne a this] s obtain st1 where
    t1: "ticks fs (sum_list (map length (take s fs))) st0 = Inr st1" and a1: "at fs st1 s 0"
    by auto
  from f have "0 + f < length (fs ! s)" by simp
  from ticks_frames[OF a1 this] obtain st2 where "ticks fs f st1 = Inr st2" "at fs st2 s f"
    by auto
  with t1 show ?thesis by (simp add: ticks_add)
qed

lemma not_origin_before:
  assumes ne: "\<forall>x \<in> set fs. x \<noteq> []" and a: "at fs st0 0 0"
    and k: "0 < k" "k < sum_list (map length fs)"
  shows "\<exists>st. ticks fs k st0 = Inr st \<and> (setIndex st \<noteq> Num 0 \<or> frameIndex st \<noteq> Num 0)"
proof -
  from decompose[OF k(2)] obtain s f where s: "s < length fs" and f: "f < length (fs ! s)"
    and d: "k = sum_list (map length (take s fs)) + f" by blast
  from ticks_position[OF ne a s f] d obtain st where t: "ticks fs k st0 = Inr st"
    and p: "at fs st s f" by auto
  have "s \<noteq> 0 \<or> f \<noteq> 0" using d k(1) by (cases s) auto
  with p have "setIndex st \<noteq> Num 0 \<or> frameIndex st \<noteq> Num 0" by (auto simp: at_def)
  with t show ?thesis by blast
qed

text \<open>
  Claim C2. For non-empty \<open>frameSets\<close> whose sets are all non-empty, the mounted state
  has both indices \<open>0\<close>, and after exactly as many ticks as there are frames in all the
  sets together both indices are \<open>0\<close> again; after any smaller positive number of ticks
  they are not both \<open>0\<close>.
\<close>

theorem full_cycle:
  assumes "frameSets \<noteq> []" and "\<forall>s \<in> set frameSets. s \<noteq> []"
  shows "\<exists>st0 st. mount frameSets = Inr st0 \<and> setIndex st0 = Num 0 \<and> frameIndex st0 = Num 0 \<and>
     ticks frameSets (sum_list (map length frameSets)) st0 = Inr st \<and>
     setIndex st = Num 0 \<and> frameIndex st = Num 0 \<and>
     (\<forall>k. 0 < k \<and> k < sum_list (map length frameSets) \<longrightarrow>
        (\<exists>st'. ticks frameSets k st0 = Inr st' \<and>
           (setIndex st' \<noteq> Num 0 \<or> frameIndex st' \<noteq> Num 0)))"
proof -
  from mount_at[OF assms(1)] obtain st0 where m: "mount frameSets = Inr st0"
    and a: "at frameSets st0 0 0" by blast
  have "0 + length frameSets \<le> length frameSets" by simp
  from ticks_sets[OF assms(2) a this] obtain st where
    t: "ticks frameSets (sum_list (map length frameSets)) st0 = Inr st" and e: "at frameSets st 0 0"
    by auto
  from a e have i: "setIndex st0 = Num 0" "frameIndex st0 = Num 0" "setIndex st = Num 0"
    "frameIndex st = Num 0" by (auto simp: at_def)
  from not_origin_before[OF assms(2) a]
  have "\<forall>k. 0 < k \<and> k < sum_list (map length frameSets) \<longrightarrow>
        (\<exists>st'. ticks frameSets k st0 = Inr st' \<and>
           (setIndex st' \<noteq> Num 0 \<or> frameIndex st' \<noteq> Num 0))" by blast
  with m t i show ?thesis by blast
qed

theorem full_cycle_witness:
  "sum_list (map length twoSets) = 5 \<and>
   (\<exists>st0 st st'. mount twoSets = Inr st0 \<and> setIndex st0 = Num 0 \<and> frameIndex st0 = Num 0 \<and>
      ticks twoSets (sum_list (map length twoSets)) st0 = Inr st \<and>
      setIndex st = Num 0 \<and> frameIndex st = Num 0 \<and>
      ticks twoSets 2 st0 = Inr st' \<and> (setIndex st' \<noteq> Num 0 \<or> frameIndex st' \<noteq> Num 0))"
proof -
  have h1: "twoSets \<noteq> []" by simp
  have h2: "\<forall>s \<in> set twoSets. s \<noteq> []" by simp
  have s: "sum_list (map length twoSets) = 5" by simp
  from full_cycle[OF h1 h2] obtain st0 st where
    1: "mount twoSets = Inr st0 \<and> setIndex st0 = Num 0 \<and> frameIndex st0 = Num 0 \<and>
      ticks twoSets (sum_list (map length twoSets)) st0 = Inr st \<and>
      setIndex st = Num 0 \<and> frameIndex st = Num 0"
    and 2: "\<forall>k. 0 < k \<and> k < sum_list (map length twoSets) \<longrightarrow>
        (\<exists>st'. ticks twoSets k st0 = Inr st' \<and>
           (setIndex st' \<noteq> Num 0 \<or> frameIndex st' \<noteq> Num 0))"
    by blast
  have "(0::nat) < 2 \<and> 2 < sum_list (map length twoSets)" by simp
  with 2 obtain st' where "ticks twoSets 2 st0 = Inr st'"
    "setIndex st' \<noteq> Num 0 \<or> frameIndex st' \<noteq> Num 0" by blast
  with 1 s show ?thesis by blast
qed

lemma displayed_at: "at fs st s f \<Longrightarrow> displayed fs st = js_index (fs ! s) (Num f)"
  by (simp add: at_def displayed_def render_def)

lemma at_cong: "at fs st s f \<Longrightarrow> s = s' \<Longrightarrow> f = f' \<Longrightarrow> at fs st s' f'"
  by simp

lemma scenario_at:
  "\<exists>st. run twoSets n = Inr st \<and>
     at twoSets st
       (if n mod 5 < 2 then 0 else 1) (if n mod 5 < 2 then n mod 5 else n mod 5 - 2)"
proof (induction n)
  case 0
  show ?case
    by (simp add: run_def mount_def render_def initial_def runEffect_def setInterval_def
        noTimers_def at_def)
next
  case (Suc n)
  from Suc obtain st where r: "run twoSets n = Inr st"
    and a: "at twoSets st (if n mod 5 < 2 then 0 else 1) (if n mod 5 < 2 then n mod 5 else n mod 5 - 2)"
    by blast
  have c: "n mod 5 = 0 \<or> n mod 5 = 1 \<or> n mod 5 = 2 \<or> n mod 5 = 3 \<or> n mod 5 = 4" by arith
  let ?s = "if n mod 5 < 2 then 0 else (1::nat)"
  let ?f = "if n mod 5 < 2 then n mod 5 else n mod 5 - 2"
  from tick_at[OF a] obtain st' where t: "tick twoSets st = Inr st'"
    and n: "if length (twoSets ! ?s) \<le> ?f + 1 then at twoSets st' ((?s + 1) mod length twoSets) 0
       else at twoSets st' ?s (?f + 1)"
    by blast
  have a': "at twoSets st' (if Suc n mod 5 < 2 then 0 else 1)
        (if Suc n mod 5 < 2 then Suc n mod 5 else Suc n mod 5 - 2)"
    using n c by (auto simp: mod_Suc elim!: at_cong)
  from r t have "run twoSets (Suc n) = Inr st'" by (simp add: run_Suc)
  with a' show ?case by blast
qed

text \<open>
  Claim C8. With the frame sets \<open>[[A, B], [C, D, E]]\<close> the frame displayed after \<open>n\<close>
  ticks is the entry \<open>n mod 5\<close> of \<open>A, B, C, D, E\<close>: the sequence of displayed frames
  is \<open>A, B, C, D, E, A, B, C, ...\<close>, with period 5.
\<close>

theorem scenario_two_sets:
  "\<exists>st. run twoSets n = Inr st \<and>
     displayed twoSets st =
       Some ([''A'', ''B'', ''C'', ''D'', ''E''] ! (n mod 5))"
proof -
  from scenario_at[of n] obtain st where r: "run twoSets n = Inr st"
    and a: "at twoSets st (if n mod 5 < 2 then 0 else 1) (if n mod 5 < 2 then n mod 5 else n mod 5 - 2)"
    by blast
  have c: "n mod 5 = 0 \<or> n mod 5 = 1 \<or> n mod 5 = 2 \<or> n mod 5 = 3 \<or> n mod 5 = 4" by arith
  have "displayed twoSets st = Some ([''A'', ''B'', ''C'', ''D'', ''E''] ! (n mod 5))"
    unfolding displayed_at[OF a] using c by auto
  with r show ?thesis by blast
qed

text \<open>
  Claim C9. With exactly one frame set holding exactly one frame, both indices are \<open>0\<close>
  after any number of ticks.
\<close>

theorem single_frame_fixed:
  "\<exists>st. run [[x]] n = Inr st \<and> setIndex st = Num 0 \<and> frameIndex st = Num 0"
proof -
  have "\<exists>st. run [[x]] n = Inr st \<and> at [[x]] st 0 0"
  proof (induction n)
    case 0
    from mount_at[of "[[x]]"] show ?case by (auto simp: run_def)
  next
    case (Suc n)
    then obtain st where r: "run [[x]] n = Inr st" and a: "at [[x]] st 0 0" by blast
    from tick_at[OF a] obtain st' where "tick [[x]] st = Inr st'" "at [[x]] st' 0 0" by auto
    with r show ?case by (auto simp: run_Suc)
  qed
  then show ?thesis by (auto simp: at_def)
qed

section \<open>ScrollingAscii: the tick\<close>

lemma sa_mount_fst:
  "fst (sa_mount p doc) =
     \<lparr>sa_frameIndex = Num 0, sa_cleanup = Some 0, sa_host = \<lparr>live = [(0, frames p)], nextId = 1\<rparr>\<rparr>"
  by (simp add: sa_mount_def setInterval_def noTimers_def)

lemma sa_mount_snd: "snd (sa_mount p doc) = injectKeyframes doc"
  by (simp add: sa_mount_def setInterval_def noTimers_def)

lemma sa_tick_running:
  "live (sa_host st) = [(i, fr)] \<Longrightarrow>
   sa_tick st = st\<lparr>sa_frameIndex := js_rem (js_succ (sa_frameIndex st)) (length fr)\<rparr>"
  by (simp add: sa_tick_def sa_fire_def sa_onInterval_def)

lemma sa_ticks_snoc: "sa_ticks (Suc n) st = sa_tick (sa_ticks n st)"
  by (induction n arbitrary: st) simp_all

lemma sa_run_Suc: "sa_run p doc (Suc n) = sa_tick (sa_run p doc n)"
  unfolding sa_run_def by (rule sa_ticks_snoc)

lemma sa_run_timers:
  "live (sa_host (sa_run p doc n)) = [(0, frames p)] \<and> sa_cleanup (sa_run p doc n) = Some 0"
proof (induction n)
  case 0
  show ?case by (simp add: sa_run_def sa_mount_fst)
next
  case (Suc n)
  then show ?case by (simp add: sa_run_Suc sa_tick_running[of _ 0 "frames p"])
qed

lemma sa_tick_run:
  "sa_frameIndex (sa_tick (sa_run p doc n)) =
     js_rem (js_succ (sa_frameIndex (sa_run p doc n))) (length (frames p))"
  using sa_run_timers[of p doc n] by (simp add: sa_tick_running[of _ 0 "frames p"])

lemma sa_run_index:
  assumes "frames p \<noteq> []"
  shows "sa_frameIndex (sa_run p doc n) = Num (n mod length (frames p))"
proof (induction n)
  case 0
  show ?case by (simp add: sa_run_def sa_mount_fst)
next
  case (Suc n)
  with assms show ?case by (simp add: sa_run_Suc sa_tick_run mod_Suc_eq)
qed

text \<open>
  Claim C7. For a non-empty \<open>frames\<close> list, after any number \<open>n\<close> of ticks the frame
  index of ScrollingAscii is a natural number \<open>i\<close> below the number of frames, and the
  next tick sets it to \<open>(i + 1) mod length frames\<close>: it wraps unconditionally, and the
  instance has no other index.
\<close>

theorem scroll_tick_modulo:
  assumes "frames p \<noteq> []"
  shows "\<exists>i. sa_frameIndex (sa_run p doc n) = Num i \<and> i < length (frames p) \<and>
     sa_run p doc (Suc n) = sa_tick (sa_run p doc n) \<and>
     sa_frameIndex (sa_tick (sa_run p doc n)) = Num ((i + 1) mod length (frames p))"
proof -
  let ?i = "n mod length (frames p)"
  have 1: "sa_frameIndex (sa_run p doc n) = Num ?i" by (rule sa_run_index[OF assms])
  have 2: "?i < length (frames p)" using assms by simp
  have 3: "sa_frameIndex (sa_tick (sa_run p doc n)) = Num ((?i + 1) mod length (frames p))"
    using assms by (simp add: sa_tick_run 1)
  from 1 2 3 show ?thesis by (auto simp: sa_run_Suc)
qed

theorem scroll_tick_modulo_witness:
  "sa_frameIndex (sa_tick (sa_run xyProps emptyPage 1)) = Num 0"
proof -
  have h: "frames xyProps \<noteq> []" by simp
  from scroll_tick_modulo[OF h, of "emptyPage" 1] obtain i where
    i: "sa_frameIndex (sa_run xyProps emptyPage 1) = Num i"
    and t: "sa_frameIndex (sa_tick (sa_run xyProps emptyPage 1)) = Num ((i + 1) mod length (frames xyProps))"
    by blast
  have "sa_frameIndex (sa_run xyProps emptyPage 1) = Num 1"
    by (simp add: sa_run_def sa_mount_def setInterval_def noTimers_def sa_tick_def sa_fire_def
        sa_onInterval_def)
  with i have "i = 1" by simp
  with t show ?thesis by simp
qed

text \<open>
  Claim C10. With an empty \<open>frames\<close> list, the index every tick computes,
  \<open>(frameIndex + 1) % 0\<close>, is \<open>NaN\<close>, so the frame index is \<open>NaN\<close> after every tick, and
  at every moment \<open>frames[frameIndex]\<close> is \<open>undefined\<close> (\<open>None\<close>). The tick and the render
  of ScrollingAscii have no operation that throws, which is why \<open>sa_tick\<close> and
  \<open>sa_render\<close> return plain values; AsciiBackground, by contrast, throws on an empty
  \<open>frameSets\<close> (\<open>mount_empty\<close>).
\<close>

theorem empty_frames_nan:
  assumes "frames p = []"
  shows "js_rem (js_succ (sa_frameIndex (sa_run p doc n))) (length (frames p)) = NaN \<and>
     sa_frameIndex (sa_run p doc (Suc n)) = NaN \<and>
     preText (sa_render p (sa_run p doc n)) = None"
proof -
  have nan: "js_rem x 0 = NaN" for x by (cases x) simp_all
  have 1: "sa_frameIndex (sa_run p doc (Suc n)) = NaN"
    using assms by (simp add: sa_run_Suc sa_tick_run nan)
  have 2: "js_index ([] :: string list) x = None" for x by (cases x) simp_all
  from 1 2 assms show ?thesis by (simp add: sa_render_def nan)
qed

theorem empty_frames_nan_witness:
  "js_rem (js_succ (sa_frameIndex (sa_run noFrames emptyPage 2))) (length (frames noFrames)) = NaN \<and>
   sa_frameIndex (sa_run noFrames emptyPage (Suc 2)) = NaN \<and>
   preText (sa_render noFrames (sa_run noFrames emptyPage 2)) = None"
proof -
  have h: "frames noFrames = []" by simp
  from empty_frames_nan[OF h, of emptyPage 2] show ?thesis .
qed

section \<open>ScrollingAscii: keyframes, teardown and direction\<close>

lemma registered_none: "(getElementById styleId doc = None) = (registered doc = 0)"
  by (auto simp: getElementById_def registered_def find_None_iff filter_empty_conv)

lemma styleSheet_id: "elemId styleSheet = styleId"
  by (simp add: styleSheet_def)

lemma getElementById_injected: "getElementById styleId (injectKeyframes doc) \<noteq> None"
proof (cases "getElementById styleId doc = None")
  case True
  have "styleSheet \<in> set (head (doc\<lparr>head := head doc @ [styleSheet]\<rparr>) @ body doc)" by simp
  with styleSheet_id have "getElementById styleId (doc\<lparr>head := head doc @ [styleSheet]\<rparr>) \<noteq> None"
    unfolding getElementById_def find_None_iff by auto
  with True show ?thesis by (simp add: injectKeyframes_def)
next
  case False
  then show ?thesis by (auto simp: injectKeyframes_def)
qed

lemma injectKeyframes_idem: "injectKeyframes (injectKeyframes doc) = injectKeyframes doc"
  using getElementById_injected[of doc] by (auto simp: injectKeyframes_def[of "injectKeyframes doc"])

lemma mountAll_injected: "mountAll ps (injectKeyframes doc) = injectKeyframes doc"
  by (induction ps) (simp_all add: mountAll_def sa_mount_snd injectKeyframes_idem)

lemma mountAll_nonempty: "ps \<noteq> [] \<Longrightarrow> mountAll ps doc = injectKeyframes doc"
proof (cases ps)
  case Nil
  assume "ps \<noteq> []"
  with Nil show ?thesis by simp
next
  case (Cons p ps')
  have "mountAll (p # ps') doc = mountAll ps' (injectKeyframes doc)"
    by (simp add: mountAll_def sa_mount_snd)
  with Cons show ?thesis by (simp add: mountAll_injected)
qed

lemma registered_inject:
  "registered (injectKeyframes doc) = (if getElementById styleId doc = None then 1 else registered doc)"
proof (cases "getElementById styleId doc = None")
  case True
  then have "registered doc = 0" by (simp add: registered_none)
  with True show ?thesis
    by (simp add: injectKeyframes_def registered_def styleSheet_def)
next
  case False
  then show ?thesis by (auto simp: injectKeyframes_def)
qed

text \<open>
  Claim C4. Mounting one or more ScrollingAscii instances, whatever their props and
  order, leaves the page as one injection does: when no element has the fixed id
  \<open>ascii-scroll-keyframes\<close> the style sheet is appended to the head once and exactly one
  element has that id afterwards; when an element with that id exists already the page
  is unchanged.
\<close>

theorem keyframes_registered_once:
  assumes "ps \<noteq> []"
  shows "mountAll ps doc =
       (if getElementById styleId doc = None then doc\<lparr>head := head doc @ [styleSheet]\<rparr> else doc) \<and>
     registered (mountAll ps doc) =
       (if getElementById styleId doc = None then 1 else registered doc)"
  using mountAll_nonempty[OF assms, of doc] registered_inject[of doc]
  by (simp add: injectKeyframes_def)


theorem keyframes_registered_once_witness:
  "mountAll [xyProps, noFrames, xyProps] emptyPage = \<lparr>head = [styleSheet], body = []\<rparr> \<and>
   registered (mountAll [xyProps, noFrames, xyProps] emptyPage) = 1"
proof -
  let ?ps = "[xyProps, noFrames, xyProps]"
  have h: "?ps \<noteq> []" by simp
  have g: "getElementById styleId emptyPage = None" by (simp add: getElementById_def)
  from keyframes_registered_once[OF h, of "emptyPage"]
  have r1: "mountAll ?ps emptyPage =
      (if getElementById styleId emptyPage = None
       then emptyPage\<lparr>head := head emptyPage @ [styleSheet]\<rparr> else emptyPage)"
    and r2: "registered (mountAll ?ps emptyPage) =
      (if getElementById styleId emptyPage = None then 1 else registered emptyPage)"
    by blast+
  from r1 g have 1: "mountAll ?ps emptyPage = emptyPage\<lparr>head := head emptyPage @ [styleSheet]\<rparr>"
    by (simp only: simp_thms if_True)
  have 2: "emptyPage\<lparr>head := head emptyPage @ [styleSheet]\<rparr> = \<lparr>head = [styleSheet], body = []\<rparr>"
    by simp
  from r2 g have 3: "registered (mountAll ?ps emptyPage) = 1"
    by (simp only: simp_thms if_True)
  from 1[unfolded 2] 3 show ?thesis by blast
qed

lemma fire_unregistered: "live (host st) = [] \<Longrightarrow> fire fs i st = Inr st"
  by (simp add: fire_def)

lemma fires_unregistered: "live (host st) = [] \<Longrightarrow> fires fs ids st = Inr st"
  by (induction ids) (simp_all add: fire_unregistered)

lemma unmount_at:
  assumes "at fs st s f"
  shows "live (host (unmount st)) = [] \<and> cleanup (unmount st) = None \<and>
    frameIndex (unmount st) = frameIndex st \<and> setIndex (unmount st) = setIndex st"
proof -
  from at_live[OF assms] obtain i c where "live (host st) = [(i, c)]" "cleanup st = Some i"
    by blast
  then show ?thesis by (simp add: unmount_def runCleanup_def clearInterval_def)
qed

lemma sa_fire_unregistered: "live (sa_host st) = [] \<Longrightarrow> sa_fire i st = st"
  by (simp add: sa_fire_def)

lemma sa_fires_unregistered: "live (sa_host st) = [] \<Longrightarrow> fold sa_fire ids st = st"
  by (induction ids) (simp_all add: sa_fire_unregistered)

lemma sa_unmount_run:
  "live (sa_host (sa_unmount (sa_run p doc n))) = [] \<and>
   sa_cleanup (sa_unmount (sa_run p doc n)) = None \<and>
   sa_frameIndex (sa_unmount (sa_run p doc n)) = sa_frameIndex (sa_run p doc n)"
  using sa_run_timers[of p doc n] by (simp add: sa_unmount_def clearInterval_def)

text \<open>
  Claim C6. A running AsciiBackground has exactly one registered interval. Unmounting
  clears it, so no interval of the instance is registered any more and the indices are
  as they were; from then on firing any interval ids whatever, or letting any number of
  timer periods pass, leaves the whole state unchanged. The same holds for a
  ScrollingAscii instance after any number of ticks.
\<close>

theorem no_mutation_after_unmount:
  assumes "run frameSets n = Inr st"
  shows "length (live (host st)) = 1 \<and> live (host (unmount st)) = [] \<and>
     setIndex (unmount st) = setIndex st \<and> frameIndex (unmount st) = frameIndex st \<and>
     fires frameSets ids (unmount st) = Inr (unmount st) \<and>
     ticks frameSets k (unmount st) = Inr (unmount st) \<and>
     live (sa_host (sa_unmount (sa_run p doc m))) = [] \<and>
     sa_frameIndex (sa_unmount (sa_run p doc m)) = sa_frameIndex (sa_run p doc m) \<and>
     fold sa_fire jds (sa_unmount (sa_run p doc m)) = sa_unmount (sa_run p doc m) \<and>
     sa_ticks k (sa_unmount (sa_run p doc m)) = sa_unmount (sa_run p doc m)"
proof -
  from run_at[OF assms] obtain s f where a: "at frameSets st s f" by blast
  note u = unmount_at[OF a]
  from u have l: "live (host (unmount st)) = []" by simp
  have t: "ticks frameSets k (unmount st) = Inr (unmount st)"
    by (induction k) (simp_all add: tick_def l)
  note su = sa_unmount_run[of p doc m]
  from su have sl: "live (sa_host (sa_unmount (sa_run p doc m))) = []" by simp
  have st: "sa_ticks k (sa_unmount (sa_run p doc m)) = sa_unmount (sa_run p doc m)"
    by (induction k) (simp_all add: sa_tick_def sl)
  from at_live[OF a] have "length (live (host st)) = 1" by auto
  with u su t st fires_unregistered[OF l] sa_fires_unregistered[OF sl]
  show ?thesis by simp
qed

theorem no_mutation_after_unmount_witness:
  "length (live (host \<lparr>frameIndex = Num 1, setIndex = Num 0, effectDeps = 2, cleanup = Some 0,
      host = \<lparr>live = [(0, [''A'', ''B''])], nextId = 1\<rparr>\<rparr>)) = 1 \<and> live (host (unmount \<lparr>frameIndex = Num 1, setIndex = Num 0, effectDeps = 2, cleanup = Some 0,
      host = \<lparr>live = [(0, [''A'', ''B''])], nextId = 1\<rparr>\<rparr>)) = [] \<and>
   setIndex (unmount \<lparr>frameIndex = Num 1, setIndex = Num 0, effectDeps = 2, cleanup = Some 0,
      host = \<lparr>live = [(0, [''A'', ''B''])], nextId = 1\<rparr>\<rparr>) = setIndex \<lparr>frameIndex = Num 1, setIndex = Num 0, effectDeps = 2, cleanup = Some 0,
      host = \<lparr>live = [(0, [''A'', ''B''])], nextId = 1\<rparr>\<rparr> \<and> frameIndex (unmount \<lparr>frameIndex = Num 1, setIndex = Num 0, effectDeps = 2, cleanup = Some 0,
      host = \<lparr>live = [(0, [''A'', ''B''])], nextId = 1\<rparr>\<rparr>) = frameIndex \<lparr>frameIndex = Num 1, setIndex = Num 0, effectDeps = 2, cleanup = Some 0,
      host = \<lparr>live = [(0, [''A'', ''B''])], nextId = 1\<rparr>\<rparr> \<and>
   fires twoSets [0, 1, 0] (unmount \<lparr>frameIndex = Num 1, setIndex = Num 0, effectDeps = 2, cleanup = Some 0,
      host = \<lparr>live = [(0, [''A'', ''B''])], nextId = 1\<rparr>\<rparr>) = Inr (unmount \<lparr>frameIndex = Num 1, setIndex = Num 0, effectDeps = 2, cleanup = Some 0,
      host = \<lparr>live = [(0, [''A'', ''B''])], nextId = 1\<rparr>\<rparr>) \<and>
   ticks twoSets 3 (unmount \<lparr>frameIndex = Num 1, setIndex = Num 0, effectDeps = 2, cleanup = Some 0,
      host = \<lparr>live = [(0, [''A'', ''B''])], nextId = 1\<rparr>\<rparr>) = Inr (unmount \<lparr>frameIndex = Num 1, setIndex = Num 0, effectDeps = 2, cleanup = Some 0,
      host = \<lparr>live = [(0, [''A'', ''B''])], nextId = 1\<rparr>\<rparr>) \<and>
   live (sa_host (sa_unmount (sa_run xyProps emptyPage 2))) = [] \<and>
   sa_frameIndex (sa_unmount (sa_run xyProps emptyPage 2)) = sa_frameIndex (sa_run xyProps emptyPage 2) \<and>
   fold sa_fire [0, 1] (sa_unmount (sa_run xyProps emptyPage 2)) = sa_unmount (sa_run xyProps emptyPage 2) \<and>
   sa_ticks 3 (sa_unmount (sa_run xyProps emptyPage 2)) = sa_unmount (sa_run xyProps emptyPage 2)"
proof -
  have h: "run twoSets 1 = Inr \<lparr>frameIndex = Num 1, setIndex = Num 0, effectDeps = 2, cleanup = Some 0,
      host = \<lparr>live = [(0, [''A'', ''B''])], nextId = 1\<rparr>\<rparr>"
    by (simp add: run_def mount_def render_def initial_def runEffect_def setInterval_def
        noTimers_def tick_def fire_def onInterval_def rerender_def runCleanup_def
        clearInterval_def)
  from no_mutation_after_unmount[OF h, of "[0, 1, 0]" 3 "xyProps" "emptyPage" 2 "[0, 1]"]
  show ?thesis .
qed

lemma animationName_scroll:
  "animationName (scrollStyleAnimation p) = ''scroll-'' @ directionText (directionOf p)"
  by (cases "directionOf p") (simp_all add: animationName_def scrollStyleAnimation_def)

text \<open>
  Claim C3. The \<open>direction\<close> prop of ScrollingAscii has exactly two values. The source
  names them \<open>right\<close> and \<open>left\<close>; they are the spec's forward and reverse, \<open>right\<close>
  being the default and moving the layer from \<open>-100%\<close> to \<open>100vw\<close>, \<open>left\<close> the other
  way. An absent prop is \<open>right\<close>, a given one is itself, and the animation name of the
  rendered layer is \<open>scroll-\<close> followed by the direction's name, which is the name of
  the injected keyframes rule for that direction.
\<close>

theorem direction_selects_profile:
  "(UNIV :: direction set) = {Left, Right} \<and>
   directionOf (p\<lparr>direction := None\<rparr>) = Right \<and>
   directionOf (p\<lparr>direction := Some d\<rparr>) = d \<and>
   animation (sa_render (p\<lparr>direction := None, scrollDuration := None\<rparr>) st) =
     ''scroll-right 20s linear infinite'' \<and>
   animationName (animation (sa_render p st)) = ''scroll-'' @ directionText (directionOf p) \<and>
   find (\<lambda>k. kfName k = animationName (animation (sa_render p st))) (textContent styleSheet) =
     Some (case directionOf p of
        Right \<Rightarrow> \<lparr>kfName = ''scroll-right'', kfFrom = ''translateX(-100%)'',
                   kfTo = ''translateX(100vw)''\<rparr>
      | Left \<Rightarrow> \<lparr>kfName = ''scroll-left'', kfFrom = ''translateX(100vw)'',
                  kfTo = ''translateX(-100%)''\<rparr>)"
proof -
  have u: "(UNIV :: direction set) = {Left, Right}"
  proof -
    have "x \<in> {Left, Right}" for x :: direction by (cases x) simp_all
    then show ?thesis by blast
  qed
  have a: "animation (sa_render (p\<lparr>direction := None, scrollDuration := None\<rparr>) st) =
      ''scroll-right 20s linear infinite''"
    by (simp add: sa_render_def scrollStyleAnimation_def directionOf_def scrollDurationOf_def
        digitChar_def)
  have n: "animationName (animation (sa_render p st)) = ''scroll-'' @ directionText (directionOf p)"
    by (simp add: sa_render_def animationName_scroll)
  have f: "find (\<lambda>k. kfName k = animationName (animation (sa_render p st)))
      (textContent styleSheet) =
     Some (case directionOf p of
        Right \<Rightarrow> \<lparr>kfName = ''scroll-right'', kfFrom = ''translateX(-100%)'',
                   kfTo = ''translateX(100vw)''\<rparr>
      | Left \<Rightarrow> \<lparr>kfName = ''scroll-left'', kfFrom = ''translateX(100vw)'',
                  kfTo = ''translateX(-100%)''\<rparr>)"
    unfolding n by (cases "directionOf p") (simp_all add: styleSheet_def)
  from u a n f show ?thesis by (simp add: directionOf_def)
qed

end
